theory Spec2Isabelle
  imports Main "HOL-Library.Stream"
begin

section \<open>Gerador de celulares BR: the generation core\<close>

text \<open>
  A shallow embedding of \<^verbatim>\<open>src/gerador_de_celulares_br.py\<close>: the trivial-pattern
  filter \<^verbatim>\<open>is_trivially_invalid\<close>, the local-number generator
  \<^verbatim>\<open>gen_local_9digits\<close>, the formatter inside \<^verbatim>\<open>gen_number_for_ddd\<close> and
  the batch loop \<^verbatim>\<open>generate\<close>.

  Python strings are \<open>string\<close> (one \<open>char\<close> per code point; only code points below
  256 are representable, which covers every character the program builds). Python
  exceptions are values of \<open>error\<close>; a computation that can raise returns
  \<open>error + 'a\<close> with \<open>Inl\<close> for the exception.
\<close>

subsection \<open>Exceptions and the built-ins the program uses\<close>

datatype error = ValueError | IndexError | ZeroDivisionError

text \<open>
  \<^verbatim>\<open>int(c)\<close> on a one-character string: the digit's value, \<^verbatim>\<open>ValueError\<close> for
  every other character.
\<close>

definition py_int :: "char \<Rightarrow> error + int" where
  "py_int c =
     (if c = CHR ''0'' then Inr 0 else if c = CHR ''1'' then Inr 1
      else if c = CHR ''2'' then Inr 2 else if c = CHR ''3'' then Inr 3
      else if c = CHR ''4'' then Inr 4 else if c = CHR ''5'' then Inr 5
      else if c = CHR ''6'' then Inr 6 else if c = CHR ''7'' then Inr 7
      else if c = CHR ''8'' then Inr 8 else if c = CHR ''9'' then Inr 9
      else Inl ValueError)"

text \<open>\<^verbatim>\<open>s.isdigit()\<close> for one character of the representable range.\<close>

definition isdigit :: "char \<Rightarrow> bool" where
  "isdigit c = (c \<in> set ''0123456789'')"

subsection \<open>\<^verbatim>\<open>is_trivially_invalid\<close> (lines 59--67)\<close>

text \<open>
  \<^verbatim>\<open>all(int(b) - int(a) == 1 for a, b in zip(seq, seq[1:]))\<close>: the generator is
  consumed pair by pair, \<^verbatim>\<open>int(b)\<close> is evaluated before \<^verbatim>\<open>int(a)\<close>, the first
  false comparison ends the scan with \<^verbatim>\<open>False\<close>, and a \<^verbatim>\<open>ValueError\<close> raised on
  the way propagates.
\<close>

fun all_inc :: "(char \<times> char) list \<Rightarrow> error + bool" where
  "all_inc [] = Inr True"
| "all_inc ((a, b) # ps) =
     (case py_int b of
        Inl e \<Rightarrow> Inl e
      | Inr ib \<Rightarrow>
          (case py_int a of
             Inl e \<Rightarrow> Inl e
           | Inr ia \<Rightarrow> if ib - ia = 1 then all_inc ps else Inr False))"

text \<open>\<^verbatim>\<open>all(int(a) - int(b) == 1 for a, b in zip(seq, seq[1:]))\<close>.\<close>

fun all_dec :: "(char \<times> char) list \<Rightarrow> error + bool" where
  "all_dec [] = Inr True"
| "all_dec ((a, b) # ps) =
     (case py_int a of
        Inl e \<Rightarrow> Inl e
      | Inr ia \<Rightarrow>
          (case py_int b of
             Inl e \<Rightarrow> Inl e
           | Inr ib \<Rightarrow> if ia - ib = 1 then all_dec ps else Inr False))"

text \<open>
  The early return on \<^verbatim>\<open>len(set(seq)) == 1\<close> comes before any \<^verbatim>\<open>int\<close>
  conversion; \<^verbatim>\<open>inc\<close> and \<^verbatim>\<open>dec\<close> are both computed before the length test.
  \<^verbatim>\<open>seq[1:]\<close> is \<open>drop 1 seq\<close>.
\<close>

definition is_trivially_invalid :: "string \<Rightarrow> error + bool" where
  "is_trivially_invalid seq =
     (if card (set seq) = 1 then Inr True
      else
        (case all_inc (zip seq (drop 1 seq)) of
           Inl e \<Rightarrow> Inl e
         | Inr inc \<Rightarrow>
             (case all_dec (zip seq (drop 1 seq)) of
                Inl e \<Rightarrow> Inl e
              | Inr dec \<Rightarrow>
                  if 6 \<le> length seq \<and> (inc \<or> dec) then Inr True else Inr False)))"

text \<open>
  The rules of the trivial-pattern filter as the specification words them, over the
  digits of the string read as integers: all characters identical; or length at least 6
  and every adjacent pair increasing by exactly 1; or length at least 6 and every adjacent
  pair decreasing by exactly 1. The pairs range over the whole string.
\<close>

definition digit_value :: "char \<Rightarrow> int" where
  "digit_value c = (case py_int c of Inr v \<Rightarrow> v | Inl _ \<Rightarrow> 0)"

definition isTrivial_spec :: "string \<Rightarrow> bool" where
  "isTrivial_spec s =
     ((\<forall>k \<in> {0 ..< length s}. s ! k = s ! 0)
      \<or> (6 \<le> length s
          \<and> (\<forall>k \<in> {0 ..< length s - 1}. digit_value (s ! Suc k) = digit_value (s ! k) + 1))
      \<or> (6 \<le> length s
          \<and> (\<forall>k \<in> {0 ..< length s - 1}. digit_value (s ! Suc k) = digit_value (s ! k) - 1)))"

subsection \<open>The entropy source\<close>

text \<open>
  \<^verbatim>\<open>sysrand = random.SystemRandom()\<close> draws from the operating system. The model
  makes the source explicit: an infinite stream of raw values, consumed front to back
  and threaded through every function that draws. \<^verbatim>\<open>sysrand.randint(a, b)\<close> is
  modelled by its contract for \<open>a \<le> b\<close>, a value \<open>N\<close> with \<open>a \<le> N \<le> b\<close> fixed by
  the next raw value; the program only calls it as \<^verbatim>\<open>randint(0, 9)\<close>.
\<close>

type_synonym entropy = "nat stream"

definition randint :: "int \<Rightarrow> int \<Rightarrow> entropy \<Rightarrow> int \<times> entropy" where
  "randint a b rs = (a + int (shd rs) mod (b - a + 1), stl rs)"

text \<open>\<^verbatim>\<open>str(n)\<close> for an integer: its decimal numeral.\<close>

fun str_nat :: "nat \<Rightarrow> string" where
  "str_nat n =
     (if n < 10 then [''0123456789'' ! n]
      else str_nat (n div 10) @ [''0123456789'' ! (n mod 10)])"

declare str_nat.simps [simp del]

definition str :: "int \<Rightarrow> string" where
  "str n = (if n < 0 then CHR ''-'' # str_nat (nat (- n)) else str_nat (nat n))"

subsection \<open>\<^verbatim>\<open>gen_local_9digits\<close> (lines 70--77)\<close>

text \<open>
  \<^verbatim>\<open>''.join(str(sysrand.randint(0, 9)) for _ in range(n))\<close>, with the entropy left
  after the \<open>n\<close> draws.
\<close>

fun rand_digits :: "nat \<Rightarrow> entropy \<Rightarrow> string \<times> entropy" where
  "rand_digits 0 rs = ([], rs)"
| "rand_digits (Suc n) rs =
     (case randint 0 9 rs of
        (d, rs') \<Rightarrow> (case rand_digits n rs' of (t, rs'') \<Rightarrow> (str d @ t, rs'')))"

text \<open>
  The \<^verbatim>\<open>while is_trivially_invalid(seq)\<close> loop has no bound in the source, so it is a
  partial function: \<open>None\<close> is the run that redraws forever. An exception of the filter
  leaves the loop as \<open>Some (Inl e)\<close>.
\<close>

partial_function (option)
  gen_local_9digits_loop :: "string \<Rightarrow> entropy \<Rightarrow> (error + string \<times> entropy) option"
where
  "gen_local_9digits_loop seq rs =
     (case is_trivially_invalid seq of
        Inl e \<Rightarrow> Some (Inl e)
      | Inr b \<Rightarrow>
          if b then
            (case rand_digits 8 rs of
               (tail, rs') \<Rightarrow> gen_local_9digits_loop (''9'' @ tail) rs')
          else Some (Inr (seq, rs)))"

definition gen_local_9digits :: "entropy \<Rightarrow> (error + string \<times> entropy) option" where
  "gen_local_9digits rs =
     (case rand_digits 8 rs of (tail, rs') \<Rightarrow> gen_local_9digits_loop (''9'' @ tail) rs')"

subsection \<open>\<^verbatim>\<open>gen_number_for_ddd\<close> (lines 80--85)\<close>

text \<open>The tuple \<^verbatim>\<open>(e164, nacional, ddd, numero)\<close>.\<close>

type_synonym phone_record = "string \<times> string \<times> string \<times> string"

text \<open>Line 83: \<^verbatim>\<open>f"+55{ddd}{numero}"\<close>.\<close>

definition format_e164 :: "string \<Rightarrow> string \<Rightarrow> string" where
  "format_e164 ddd numero = ''+55'' @ ddd @ numero"

text \<open>
  Line 84: \<^verbatim>\<open>f"({ddd}) {numero[0]} {numero[1:5]}-{numero[5:]}"\<close>. The index
  \<^verbatim>\<open>numero[0]\<close> raises \<^verbatim>\<open>IndexError\<close> on the empty string; the slices never raise.
\<close>

definition format_nacional :: "string \<Rightarrow> string \<Rightarrow> error + string" where
  "format_nacional ddd numero =
     (if numero = [] then Inl IndexError
      else Inr (''('' @ ddd @ '') '' @ [numero ! 0] @ '' '' @ take 4 (drop 1 numero)
                @ ''-'' @ drop 5 numero))"

definition gen_number_for_ddd ::
  "string \<Rightarrow> entropy \<Rightarrow> (error + phone_record \<times> entropy) option" where
  "gen_number_for_ddd ddd rs =
     (case gen_local_9digits rs of
        None \<Rightarrow> None
      | Some (Inl e) \<Rightarrow> Some (Inl e)
      | Some (Inr (numero, rs')) \<Rightarrow>
          (case format_nacional ddd numero of
             Inl e \<Rightarrow> Some (Inl e)
           | Inr nacional \<Rightarrow>
               Some (Inr ((format_e164 ddd numero, nacional, ddd, numero), rs'))))"

subsection \<open>\<^verbatim>\<open>generate\<close> (lines 88--107)\<close>

text \<open>The local variables of \<^verbatim>\<open>generate\<close> that the loop updates, and the entropy.\<close>

record gen_state =
  results :: "phone_record list"
  seen :: "string set"
  i :: int
  attempts :: int
  entropy :: entropy

definition init_state :: "entropy \<Rightarrow> gen_state" where
  "init_state rs = \<lparr>results = [], seen = {}, i = 0, attempts = 0, entropy = rs\<rparr>"

text \<open>
  Line 96: \<^verbatim>\<open>ddds[i % len(ddds)]\<close>. The modulus raises \<^verbatim>\<open>ZeroDivisionError\<close> on
  an empty list; otherwise the index is in range.
\<close>

definition pick_ddd :: "string list \<Rightarrow> int \<Rightarrow> error + string" where
  "pick_ddd ddds k =
     (if length ddds = 0 then Inl ZeroDivisionError
      else Inr (ddds ! nat (k mod int (length ddds))))"

text \<open>Line 95: \<^verbatim>\<open>len(results) < qtd and attempts < max_attempts\<close>.\<close>

definition loop_cond :: "int \<Rightarrow> int \<Rightarrow> gen_state \<Rightarrow> bool" where
  "loop_cond qtd max_attempts st \<longleftrightarrow>
     int (length (results st)) < qtd \<and> attempts st < max_attempts"

text \<open>
  Lines 96--104, one pass through the loop body. The \<^verbatim>\<open>continue\<close> on a seen
  \<^verbatim>\<open>e164\<close> leaves the body after \<^verbatim>\<open>attempts += 1\<close> and before
  \<^verbatim>\<open>results.append\<close> and \<^verbatim>\<open>i += 1\<close>.
\<close>

definition loop_body :: "string list \<Rightarrow> bool \<Rightarrow> gen_state \<Rightarrow> (error + gen_state) option" where
  "loop_body ddds dedup st =
     (case pick_ddd ddds (i st) of
        Inl e \<Rightarrow> Some (Inl e)
      | Inr ddd \<Rightarrow>
          (case gen_number_for_ddd ddd (entropy st) of
             None \<Rightarrow> None
           | Some (Inl e) \<Rightarrow> Some (Inl e)
           | Some (Inr ((e164, nacional, ddd_out, numero), rs')) \<Rightarrow>
               (let st1 = st\<lparr>attempts := attempts st + 1, entropy := rs'\<rparr> in
                if dedup \<and> e164 \<in> seen st1 then Some (Inr st1)
                else
                  (let st2 = (if dedup then st1\<lparr>seen := insert e164 (seen st1)\<rparr> else st1)
                   in Some (Inr (st2\<lparr>results := results st2 @ [(e164, nacional, ddd_out, numero)],
                                      i := i st2 + 1\<rparr>))))))"

text \<open>
  The \<^verbatim>\<open>while\<close> loop. Every pass that returns has raised \<^verbatim>\<open>attempts\<close> by one,
  which is what bounds the recursion.
\<close>

function generate_loop ::
  "string list \<Rightarrow> int \<Rightarrow> bool \<Rightarrow> int \<Rightarrow> gen_state \<Rightarrow> (error + gen_state) option" where
  "generate_loop ddds qtd dedup max_attempts st =
     (if loop_cond qtd max_attempts st then
        (case loop_body ddds dedup st of
           None \<Rightarrow> None
         | Some (Inl e) \<Rightarrow> Some (Inl e)
         | Some (Inr st') \<Rightarrow> generate_loop ddds qtd dedup max_attempts st')
      else Some (Inr st))"
  by pat_completeness auto
termination
proof (relation "measure (\<lambda>(ddds, qtd, dedup, max_attempts, st). nat (max_attempts - attempts st))")
  show "wf (measure (\<lambda>(ddds, qtd, dedup, max_attempts, st). nat (max_attempts - attempts st)))"
    by simp
next
  fix ddds :: "string list" and qtd :: int and dedup :: bool and max_attempts :: int
    and st :: gen_state and x2 :: "error + gen_state" and st' :: gen_state
  assume c: "loop_cond qtd max_attempts st"
    and b: "loop_body ddds dedup st = Some x2" and x: "x2 = Inr st'"
  from b x have "attempts st' = attempts st + 1"
    by (auto simp: loop_body_def Let_def split: sum.splits option.splits prod.splits if_splits)
  with c show "((ddds, qtd, dedup, max_attempts, st'), (ddds, qtd, dedup, max_attempts, st))
      \<in> measure (\<lambda>(ddds, qtd, dedup, max_attempts, st). nat (max_attempts - attempts st))"
    by (simp add: loop_cond_def)
qed

declare generate_loop.simps [simp del]

text \<open>
  Line 106 prints one line built from \<^verbatim>\<open>len(results)\<close>, \<^verbatim>\<open>qtd\<close> and
  \<^verbatim>\<open>attempts\<close>; the model keeps the three interpolated values.
\<close>

datatype message = Aviso int int int

text \<open>
  \<^verbatim>\<open>generate\<close> returns the list \<^verbatim>\<open>results\<close>; the model returns it together with
  what was printed and the entropy left.
\<close>

definition generate ::
  "string list \<Rightarrow> int \<Rightarrow> bool \<Rightarrow> entropy
   \<Rightarrow> (error + phone_record list \<times> message list \<times> entropy) option" where
  "generate ddds qtd dedup rs =
     (case generate_loop ddds qtd dedup (max (qtd * 20) 200) (init_state rs) of
        None \<Rightarrow> None
      | Some (Inl e) \<Rightarrow> Some (Inl e)
      | Some (Inr st) \<Rightarrow>
          Some (Inr (results st,
                     (if int (length (results st)) < qtd
                      then [Aviso (int (length (results st))) qtd (attempts st)] else []),
                     entropy st)))"

subsection \<open>Notions the properties are stated with\<close>

text \<open>
  A well-formed local number: nine characters, the first one \<open>9\<close>, all of them decimal
  digits.
\<close>

definition is_local9 :: "string \<Rightarrow> bool" where
  "is_local9 seq \<longleftrightarrow> length seq = 9 \<and> seq ! 0 = CHR ''9'' \<and> list_all isdigit seq"


text \<open>
  The first \<open>k\<close> passes of the \<^verbatim>\<open>while\<close> loop of \<^verbatim>\<open>generate\<close>: the state in which
  pass \<open>k + 1\<close> would start. It is the loop itself cut after \<open>k\<close> passes, and gives
  access to the state before each attempt.
\<close>

fun loop_prefix ::
  "nat \<Rightarrow> string list \<Rightarrow> int \<Rightarrow> bool \<Rightarrow> int \<Rightarrow> gen_state \<Rightarrow> (error + gen_state) option" where
  "loop_prefix 0 ddds qtd dedup max_attempts st = Some (Inr st)"
| "loop_prefix (Suc k) ddds qtd dedup max_attempts st =
     (if loop_cond qtd max_attempts st then
        (case loop_body ddds dedup st of
           None \<Rightarrow> None
         | Some (Inl e) \<Rightarrow> Some (Inl e)
         | Some (Inr st') \<Rightarrow> loop_prefix k ddds qtd dedup max_attempts st')
      else Some (Inr st))"

text \<open>
  The state in which the \<open>k\<close>-th attempt (counted from 1) of
  \<^verbatim>\<open>generate(ddds, qtd, dedup)\<close> starts; \<open>None\<close> when the call makes fewer than \<open>k\<close>
  attempts.
\<close>

definition attempt_state ::
  "nat \<Rightarrow> string list \<Rightarrow> int \<Rightarrow> bool \<Rightarrow> entropy \<Rightarrow> gen_state option" where
  "attempt_state k ddds qtd dedup rs =
     (if k = 0 then None
      else
        (case loop_prefix (k - 1) ddds qtd dedup (max (qtd * 20) 200) (init_state rs) of
           Some (Inr st) \<Rightarrow>
             if loop_cond qtd (max (qtd * 20) 200) st then Some st else None
         | _ \<Rightarrow> None))"

text \<open>The area code line 96 picks on the \<open>k\<close>-th attempt.\<close>

definition attempt_ddd ::
  "nat \<Rightarrow> string list \<Rightarrow> int \<Rightarrow> bool \<Rightarrow> entropy \<Rightarrow> string option" where
  "attempt_ddd k ddds qtd dedup rs =
     (case attempt_state k ddds qtd dedup rs of
        None \<Rightarrow> None
      | Some st \<Rightarrow> (case pick_ddd ddds (i st) of Inl e \<Rightarrow> None | Inr ddd \<Rightarrow> Some ddd))"

text \<open>The number of records accepted before the \<open>k\<close>-th attempt.\<close>

definition accepted_before ::
  "nat \<Rightarrow> string list \<Rightarrow> int \<Rightarrow> bool \<Rightarrow> entropy \<Rightarrow> nat option" where
  "accepted_before k ddds qtd dedup rs =
     map_option (\<lambda>st. length (results st)) (attempt_state k ddds qtd dedup rs)"

text \<open>
  The round trip of the specification: strip the prefix \<open>+55\<close> and the area code from
  an E.164 string and split what is left as digit 0, digits 1 to 4, digits 5 to 8.
\<close>

definition strip_prefix :: "string \<Rightarrow> string \<Rightarrow> string option" where
  "strip_prefix p s = (if take (length p) s = p then Some (drop (length p) s) else None)"

definition national_from_e164 :: "string \<Rightarrow> string \<Rightarrow> string option" where
  "national_from_e164 D e164 =
     (case strip_prefix (''+55'' @ D) e164 of
        None \<Rightarrow> None
      | Some r \<Rightarrow>
          Some (''('' @ D @ '') '' @ [r ! 0] @ '' '' @ take 4 (drop 1 r) @ ''-''
                @ take 4 (drop 5 r)))"

text \<open>
  The field-consistency condition on a record \<^verbatim>\<open>(e164, nacional, ddd, numero)\<close>
  relative to the list of area codes passed in; \<^verbatim>\<open>numero[5:9]\<close> is
  \<open>take 4 (drop 5 numero)\<close>.
\<close>

definition record_consistent :: "string list \<Rightarrow> phone_record \<Rightarrow> bool" where
  "record_consistent ddds r =
     (case r of
        (e164, nacional, ddd, numero) \<Rightarrow>
          e164 = ''+55'' @ ddd @ numero
          \<and> nacional = ''('' @ ddd @ '') '' @ [numero ! 0] @ '' '' @ take 4 (drop 1 numero)
                         @ ''-'' @ take 4 (drop 5 numero)
          \<and> ddd \<in> set ddds)"

text \<open>
  What holds of the variables of \<^verbatim>\<open>generate\<close> each time line 95 tests the loop
  condition, for a call with entropy \<open>rs\<close> and attempt budget \<open>m\<close>.
\<close>

definition loop_inv ::
  "string list \<Rightarrow> int \<Rightarrow> bool \<Rightarrow> int \<Rightarrow> entropy \<Rightarrow> gen_state \<Rightarrow> bool" where
  "loop_inv ddds qtd dedup m rs st \<longleftrightarrow>
     i st = int (length (results st))
     \<and> int (length (results st)) \<le> attempts st
     \<and> int (length (results st)) \<le> max 0 qtd
     \<and> attempts st \<le> max 0 m
     \<and> (\<not> dedup \<longrightarrow> attempts st = int (length (results st)))
     \<and> (dedup \<longrightarrow> seen st = set (map fst (results st)) \<and> distinct (map fst (results st)))
     \<and> list_all (record_consistent ddds) (results st)
     \<and> (\<exists>n. entropy st = sdrop n rs)"

subsection \<open>Facts about the filter\<close>

lemma py_int_isdigit: "isdigit c \<Longrightarrow> py_int c = Inr (digit_value c)"
  by (auto simp: isdigit_def py_int_def digit_value_def)

lemma all_inc_digits:
  "\<forall>p \<in> set ps. isdigit (fst p) \<and> isdigit (snd p) \<Longrightarrow>
   all_inc ps = Inr (\<forall>p \<in> set ps. digit_value (snd p) - digit_value (fst p) = 1)"
  by (induction ps rule: all_inc.induct) (auto simp: py_int_isdigit)

lemma all_dec_digits:
  "\<forall>p \<in> set ps. isdigit (fst p) \<and> isdigit (snd p) \<Longrightarrow>
   all_dec ps = Inr (\<forall>p \<in> set ps. digit_value (fst p) - digit_value (snd p) = 1)"
  by (induction ps rule: all_dec.induct) (auto simp: py_int_isdigit)

lemma zip_drop1_digits:
  "\<forall>c \<in> set s. isdigit c \<Longrightarrow> \<forall>p \<in> set (zip s (drop 1 s)). isdigit (fst p) \<and> isdigit (snd p)"
proof
  fix p assume a: "\<forall>c \<in> set s. isdigit c" and p: "p \<in> set (zip s (drop 1 s))"
  obtain x y where xy: "p = (x, y)" by (cases p)
  from p xy have "x \<in> set s" by (auto dest: set_zip_leftD)
  moreover from p xy have "y \<in> set (drop 1 s)" by (auto dest: set_zip_rightD)
  then have "y \<in> set s" by (rule in_set_dropD)
  ultimately show "isdigit (fst p) \<and> isdigit (snd p)" using a xy by simp
qed

lemma adjacent_pairs_iff:
  "(\<forall>p \<in> set (zip s (drop 1 s)). P (fst p) (snd p))
   \<longleftrightarrow> (\<forall>k \<in> {0 ..< length s - 1}. P (s ! k) (s ! Suc k))"
proof
  assume l: "\<forall>p \<in> set (zip s (drop 1 s)). P (fst p) (snd p)"
  show "\<forall>k \<in> {0 ..< length s - 1}. P (s ! k) (s ! Suc k)"
  proof
    fix k assume "k \<in> {0 ..< length s - 1}"
    then have k: "k < length s - 1" by simp
    then have "(s ! k, s ! Suc k) \<in> set (zip s (drop 1 s))"
      by (auto simp: set_zip intro!: exI [of _ k])
    with l show "P (s ! k) (s ! Suc k)" by fastforce
  qed
next
  assume r: "\<forall>k \<in> {0 ..< length s - 1}. P (s ! k) (s ! Suc k)"
  then show "\<forall>p \<in> set (zip s (drop 1 s)). P (fst p) (snd p)"
    by (auto simp: set_zip)
qed

lemma card_set_one_iff:
  "s \<noteq> [] \<Longrightarrow> card (set s) = 1 \<longleftrightarrow> (\<forall>k \<in> {0 ..< length s}. s ! k = s ! 0)"
proof
  assume ne: "s \<noteq> []" and c: "card (set s) = 1"
  then obtain x where x: "set s = {x}" by (auto simp: card_1_singleton_iff)
  then have "\<forall>k < length s. s ! k = x" by (metis nth_mem singletonD)
  with ne show "\<forall>k \<in> {0 ..< length s}. s ! k = s ! 0" by auto
next
  assume ne: "s \<noteq> []" and a: "\<forall>k \<in> {0 ..< length s}. s ! k = s ! 0"
  have "set s = {s ! 0}"
  proof
    show "set s \<subseteq> {s ! 0}" using a by (auto simp: in_set_conv_nth)
    show "{s ! 0} \<subseteq> set s" using ne by auto
  qed
  then show "card (set s) = 1" by simp
qed

lemma filter_refines:
  assumes ne: "s \<noteq> []" and dg: "\<forall>c \<in> set s. isdigit c"
  shows "is_trivially_invalid s = Inr (isTrivial_spec s)"
proof -
  note zd = zip_drop1_digits [OF dg]
  have inc: "all_inc (zip s (drop 1 s))
      = Inr (\<forall>k \<in> {0 ..< length s - 1}. digit_value (s ! Suc k) - digit_value (s ! k) = 1)"
    unfolding all_inc_digits [OF zd]
    by (simp only: adjacent_pairs_iff [where P = "\<lambda>a b. digit_value b - digit_value a = 1"])
  have dec: "all_dec (zip s (drop 1 s))
      = Inr (\<forall>k \<in> {0 ..< length s - 1}. digit_value (s ! k) - digit_value (s ! Suc k) = 1)"
    unfolding all_dec_digits [OF zd]
    by (simp only: adjacent_pairs_iff [where P = "\<lambda>a b. digit_value a - digit_value b = 1"])
  define A where "A \<longleftrightarrow> (\<forall>k \<in> {0 ..< length s}. s ! k = s ! 0)"
  define B where
    "B \<longleftrightarrow> (\<forall>k \<in> {0 ..< length s - 1}. digit_value (s ! Suc k) = digit_value (s ! k) + 1)"
  define C where
    "C \<longleftrightarrow> (\<forall>k \<in> {0 ..< length s - 1}. digit_value (s ! Suc k) = digit_value (s ! k) - 1)"
  have b: "(\<forall>k \<in> {0 ..< length s - 1}. digit_value (s ! Suc k) - digit_value (s ! k) = 1) = B"
    unfolding B_def by (rule ball_cong) auto
  have c: "(\<forall>k \<in> {0 ..< length s - 1}. digit_value (s ! k) - digit_value (s ! Suc k) = 1) = C"
    unfolding C_def by (rule ball_cong) auto
  have spec: "isTrivial_spec s = (A \<or> (6 \<le> length s \<and> B) \<or> (6 \<le> length s \<and> C))"
    unfolding isTrivial_spec_def A_def B_def C_def ..
  have code: "is_trivially_invalid s
      = (if A then Inr True else if 6 \<le> length s \<and> (B \<or> C) then Inr True else Inr False)"
    unfolding is_trivially_invalid_def inc dec b c card_set_one_iff [OF ne] A_def [symmetric]
    by simp
  show ?thesis unfolding spec code by auto
qed

subsection \<open>Facts about the local-number generator\<close>

lemma str_digit: "0 \<le> d \<Longrightarrow> d < 10 \<Longrightarrow> \<exists>c. str d = [c] \<and> isdigit c"
proof -
  assume a: "0 \<le> d" "d < 10"
  then have n: "nat d < 10" by simp
  then have "''0123456789'' ! nat d \<in> set ''0123456789''"
    by (intro nth_mem) simp
  with a n show ?thesis
    by (simp add: str_def str_nat.simps [of "nat d"] isdigit_def)
qed

lemma rand_digits_props:
  "rand_digits n rs = (t, rs') \<Longrightarrow>
   length t = n \<and> list_all isdigit t \<and> rs' = sdrop n rs"
proof (induction n arbitrary: rs t rs')
  case 0
  then show ?case by simp
next
  case (Suc n)
  obtain t0 r0 where r: "rand_digits n (stl rs) = (t0, r0)" by (cases "rand_digits n (stl rs)")
  define d where "d = int (shd rs) mod 10"
  have "0 \<le> d" "d < 10" by (simp_all add: d_def)
  then obtain c where c: "str d = [c]" "isdigit c" using str_digit by blast
  from Suc.prems r c have t: "t = c # t0" and rs': "rs' = r0"
    by (simp_all add: randint_def d_def)
  from Suc.IH [OF r] t rs' c show ?case by simp
qed

lemma nine_tail_local9:
  "rand_digits 8 rs = (t, rs') \<Longrightarrow> is_local9 (''9'' @ t)"
proof -
  assume "rand_digits 8 rs = (t, rs')"
  from rand_digits_props [OF this] have "length t = 8" "list_all isdigit t" by simp_all
  moreover have "isdigit CHR ''9''" by (simp add: isdigit_def)
  ultimately show ?thesis by (simp add: is_local9_def)
qed

lemma local9_no_error: "is_local9 seq \<Longrightarrow> \<exists>b. is_trivially_invalid seq = Inr b"
proof -
  assume a: "is_local9 seq"
  then have "seq \<noteq> []" by (auto simp: is_local9_def)
  with a filter_refines [of seq] show ?thesis by (simp add: is_local9_def list_all_iff)
qed

lemma loop_stop:
  "is_trivially_invalid seq = Inr False \<Longrightarrow>
   gen_local_9digits_loop seq rs = Some (Inr (seq, rs))"
  by (subst gen_local_9digits_loop.simps) simp

lemma loop_redraw:
  "is_trivially_invalid seq = Inr True \<Longrightarrow> rand_digits 8 rs = (t, rs') \<Longrightarrow>
   gen_local_9digits_loop seq rs = gen_local_9digits_loop (''9'' @ t) rs'"
  by (subst gen_local_9digits_loop.simps) simp

lemma loop_returns_good:
  assumes ret: "gen_local_9digits_loop seq rs = Some y"
  shows "is_local9 seq \<longrightarrow>
   (\<exists>seq' n. y = Inr (seq', sdrop n rs) \<and> is_local9 seq' \<and> is_trivially_invalid seq' = Inr False)"
proof (rule gen_local_9digits_loop.raw_induct
    [where P = "\<lambda>seq rs y. is_local9 seq \<longrightarrow> (\<exists>seq' n. y = Inr (seq', sdrop n rs)
       \<and> is_local9 seq' \<and> is_trivially_invalid seq' = Inr False)", OF _ ret], goal_cases)
  case (1 loop seq rs y)
  show ?case
  proof
    assume l9: "is_local9 seq"
    from local9_no_error [OF l9] obtain b where b: "is_trivially_invalid seq = Inr b" ..
    show "\<exists>seq' n. y = Inr (seq', sdrop n rs) \<and> is_local9 seq'
        \<and> is_trivially_invalid seq' = Inr False"
    proof (cases b)
      case False
      with 1(2) b have "y = Inr (seq, sdrop 0 rs)" by simp
      with False b l9 show ?thesis by (intro exI [of _ seq] exI [of _ 0]) simp
    next
      case True
      obtain t r where tr: "rand_digits 8 rs = (t, r)" by (cases "rand_digits 8 rs")
      with 1(2) b True have l: "loop (''9'' @ t) r = Some y" by simp
      from rand_digits_props [OF tr] have r: "r = sdrop 8 rs" by simp
      from 1(1) [OF l] nine_tail_local9 [OF tr] obtain seq' n where
        y: "y = Inr (seq', sdrop n r)"
        and g: "is_local9 seq'" "is_trivially_invalid seq' = Inr False"
        by (elim impE exE conjE)
      from y r have "y = Inr (seq', sdrop (8 + n) rs)" by (simp only: sdrop_add)
      with g show ?thesis by (intro exI [of _ seq'] exI [of _ "8 + n"]) simp
    qed
  qed
qed

lemma gen_local_9digits_good:
  "gen_local_9digits rs = Some y \<Longrightarrow>
   \<exists>seq n. y = Inr (seq, sdrop n rs) \<and> is_local9 seq \<and> is_trivially_invalid seq = Inr False"
proof -
  assume a: "gen_local_9digits rs = Some y"
  obtain t r where tr: "rand_digits 8 rs = (t, r)" by (cases "rand_digits 8 rs")
  with a have l: "gen_local_9digits_loop (''9'' @ t) r = Some y"
    by (simp add: gen_local_9digits_def)
  from rand_digits_props [OF tr] have r: "r = sdrop 8 rs" by simp
  from loop_returns_good [OF l] nine_tail_local9 [OF tr] obtain seq n where
    y: "y = Inr (seq, sdrop n r)"
    and g: "is_local9 seq" "is_trivially_invalid seq = Inr False"
    by (elim impE exE conjE)
  from y r have "y = Inr (seq, sdrop (8 + n) rs)" by (simp only: sdrop_add)
  with g show ?thesis by (intro exI [of _ seq] exI [of _ "8 + n"]) simp
qed

text \<open>Evaluating the draws on a concrete entropy source.\<close>

lemma rand_digits_numeral:
  "rand_digits (numeral k) rs =
     (case randint 0 9 rs of
        (d, rs') \<Rightarrow>
          (case rand_digits (pred_numeral k) rs' of (t, rs'') \<Rightarrow> (str d @ t, rs'')))"
  by (simp add: numeral_eq_Suc)

lemmas draw_eval = rand_digits_numeral randint_def str_def str_nat.simps

lemma gen_local_9digits_zeros:
  "gen_local_9digits (sconst 0) = Some (Inr (''900000000'', sconst 0))"
proof -
  have d: "rand_digits 8 (sconst 0) = (''00000000'', sconst 0)"
    by (simp add: draw_eval)
  have f: "is_trivially_invalid ''900000000'' = Inr False"
    by (simp add: is_trivially_invalid_def py_int_def)
  show ?thesis by (simp add: gen_local_9digits_def d loop_stop [OF f])
qed

subsection \<open>Facts about the batch loop\<close>


lemma local9_nonempty: "is_local9 numero \<Longrightarrow> numero \<noteq> [] \<and> length numero = 9"
  by (auto simp: is_local9_def)

lemma gen_number_for_ddd_good:
  assumes "gen_number_for_ddd ddd rs = Some y"
  shows "\<exists>numero nacional n. y = Inr ((format_e164 ddd numero, nacional, ddd, numero), sdrop n rs)
     \<and> is_local9 numero \<and> format_nacional ddd numero = Inr nacional"
proof -
  from assms obtain z where z: "gen_local_9digits rs = Some z"
    by (auto simp: gen_number_for_ddd_def split: option.splits)
  from gen_local_9digits_good [OF z] obtain numero n where
    zz: "z = Inr (numero, sdrop n rs)" and l9: "is_local9 numero"
    by (elim exE conjE)
  from l9 have ne: "numero \<noteq> []" by (simp add: local9_nonempty)
  then obtain nacional where nac: "format_nacional ddd numero = Inr nacional"
    by (simp add: format_nacional_def)
  from assms z zz nac have "y = Inr ((format_e164 ddd numero, nacional, ddd, numero), sdrop n rs)"
    by (simp add: gen_number_for_ddd_def)
  with l9 nac show ?thesis by blast
qed


lemma loop_body_step:
  assumes "loop_body ddds dedup st = Some y"
  shows "(ddds = [] \<and> y = Inl ZeroDivisionError) \<or>
   (\<exists>numero nacional n ddd e164. ddds \<noteq> [] \<and> is_local9 numero
      \<and> ddd = ddds ! nat (i st mod int (length ddds))
      \<and> e164 = format_e164 ddd numero
      \<and> format_nacional ddd numero = Inr nacional
      \<and> y = Inr (if dedup \<and> e164 \<in> seen st
           then st\<lparr>attempts := attempts st + 1, entropy := sdrop n (entropy st)\<rparr>
           else st\<lparr>attempts := attempts st + 1, entropy := sdrop n (entropy st),
                  seen := (if dedup then insert e164 (seen st) else seen st),
                  results := results st @ [(e164, nacional, ddd, numero)],
                  i := i st + 1\<rparr>))"
proof (cases "ddds = []")
  case True
  with assms show ?thesis by (simp add: loop_body_def pick_ddd_def)
next
  case False
  define ddd where "ddd = ddds ! nat (i st mod int (length ddds))"
  from False have pick: "pick_ddd ddds (i st) = Inr ddd" by (simp add: pick_ddd_def ddd_def)
  from assms pick obtain z where z: "gen_number_for_ddd ddd (entropy st) = Some z"
    by (auto simp: loop_body_def split: option.splits)
  from gen_number_for_ddd_good [OF z] obtain numero nacional n where
    zz: "z = Inr ((format_e164 ddd numero, nacional, ddd, numero), sdrop n (entropy st))"
    and l9: "is_local9 numero" and nac: "format_nacional ddd numero = Inr nacional"
    by (elim exE conjE)
  from assms pick z zz have
    "y = Inr (if dedup \<and> format_e164 ddd numero \<in> seen st
           then st\<lparr>attempts := attempts st + 1, entropy := sdrop n (entropy st)\<rparr>
           else st\<lparr>attempts := attempts st + 1, entropy := sdrop n (entropy st),
                  seen := (if dedup then insert (format_e164 ddd numero) (seen st) else seen st),
                  results := results st @ [(format_e164 ddd numero, nacional, ddd, numero)],
                  i := i st + 1\<rparr>)"
    by (auto simp: loop_body_def Let_def)
  with False l9 nac ddd_def show ?thesis by blast
qed


lemma pick_in_range: "ddds \<noteq> [] \<Longrightarrow> ddds ! nat (k mod int (length ddds)) \<in> set ddds"
proof -
  assume "ddds \<noteq> []"
  then have "0 < int (length ddds)" by simp
  then have "0 \<le> k mod int (length ddds)" "k mod int (length ddds) < int (length ddds)"
    by simp_all
  then have "nat (k mod int (length ddds)) < length ddds" by linarith
  then show ?thesis by (rule nth_mem)
qed

lemma made_record_consistent:
  assumes "ddds \<noteq> []" "is_local9 numero" "format_nacional ddd numero = Inr nacional"
    "ddd = ddds ! nat (k mod int (length ddds))"
  shows "record_consistent ddds (format_e164 ddd numero, nacional, ddd, numero)"
proof -
  from assms(2) have l: "length numero = 9" and ne: "numero \<noteq> []"
    by (simp_all add: local9_nonempty)
  from l have t: "take 4 (drop 5 numero) = drop 5 numero" by simp
  from assms(3) ne have "nacional = ''('' @ ddd @ '') '' @ [numero ! 0] @ '' ''
      @ take 4 (drop 1 numero) @ ''-'' @ drop 5 numero"
    by (simp add: format_nacional_def)
  with t assms(1,4) pick_in_range [OF assms(1), of k] show ?thesis
    by (simp add: record_consistent_def format_e164_def)
qed

lemma loop_inv_init: "loop_inv ddds qtd dedup m rs (init_state rs)"
  unfolding loop_inv_def init_state_def by (auto intro: exI [of _ 0])

lemma loop_inv_step:
  assumes ne: "ddds \<noteq> []" and inv: "loop_inv ddds qtd dedup m rs s"
    and c: "loop_cond qtd m s" and b: "loop_body ddds dedup s = Some y"
  shows "\<exists>s'. y = Inr s' \<and> loop_inv ddds qtd dedup m rs s'"
proof -
  from loop_body_step [OF b] ne obtain numero nacional n ddd e164 where
    l9: "is_local9 numero" and ddd: "ddd = ddds ! nat (i s mod int (length ddds))"
    and e: "e164 = format_e164 ddd numero" and nac: "format_nacional ddd numero = Inr nacional"
    and y: "y = Inr (if dedup \<and> e164 \<in> seen s
           then s\<lparr>attempts := attempts s + 1, entropy := sdrop n (entropy s)\<rparr>
           else s\<lparr>attempts := attempts s + 1, entropy := sdrop n (entropy s),
                  seen := (if dedup then insert e164 (seen s) else seen s),
                  results := results s @ [(e164, nacional, ddd, numero)],
                  i := i s + 1\<rparr>)"
    by (elim disjE conjE exE) simp_all
  note rc = made_record_consistent [OF ne l9 nac ddd]
  from inv obtain k where k: "entropy s = sdrop k rs" unfolding loop_inv_def by blast
  then have ent: "sdrop n (entropy s) = sdrop (k + n) rs" by simp
  show ?thesis
  proof (cases "dedup \<and> e164 \<in> seen s")
    case True
    with y have y': "y = Inr (s\<lparr>attempts := attempts s + 1, entropy := sdrop (k + n) rs\<rparr>)"
      by (simp add: ent)
    from inv c True have "loop_inv ddds qtd dedup m rs
        (s\<lparr>attempts := attempts s + 1, entropy := sdrop (k + n) rs\<rparr>)"
      unfolding loop_inv_def loop_cond_def by auto
    with y' show ?thesis by blast
  next
    case False
    with y have y': "y = Inr (s\<lparr>attempts := attempts s + 1, entropy := sdrop (k + n) rs,
                  seen := (if dedup then insert e164 (seen s) else seen s),
                  results := results s @ [(e164, nacional, ddd, numero)],
                  i := i s + 1\<rparr>)"
      by (simp add: ent)
    from inv c False rc e have "loop_inv ddds qtd dedup m rs
        (s\<lparr>attempts := attempts s + 1, entropy := sdrop (k + n) rs,
                  seen := (if dedup then insert e164 (seen s) else seen s),
                  results := results s @ [(e164, nacional, ddd, numero)],
                  i := i s + 1\<rparr>)"
      unfolding loop_inv_def loop_cond_def by auto
    with y' show ?thesis by blast
  qed
qed


lemma generate_loop_rule:
  "\<lbrakk>\<forall>s y. P s \<and> loop_cond qtd m s \<and> loop_body ddds dedup s = Some y
       \<longrightarrow> (\<exists>s'. y = Inr s' \<and> P s');
    P st; generate_loop ddds qtd dedup m st = Some y\<rbrakk>
   \<Longrightarrow> \<exists>st'. y = Inr st' \<and> P st' \<and> \<not> loop_cond qtd m st'"
proof (induction ddds qtd dedup m st rule: generate_loop.induct)
  case (1 ddds qtd dedup m st)
  show ?case
  proof (cases "loop_cond qtd m st")
    case False
    with "1.prems"(3) have "y = Inr st" by (simp add: generate_loop.simps)
    with False "1.prems"(2) show ?thesis by simp
  next
    case True
    with "1.prems"(3) obtain z where z: "loop_body ddds dedup st = Some z"
      by (cases "loop_body ddds dedup st") (simp_all add: generate_loop.simps)
    with "1.prems"(1,2) True obtain s' where s': "z = Inr s'" "P s'" by blast
    from "1.prems"(3) True z s' have "generate_loop ddds qtd dedup m s' = Some y"
      by (simp add: generate_loop.simps [of ddds qtd dedup m st])
    from "1.IH" [OF True z s'(1) "1.prems"(1) s'(2) this] show ?thesis .
  qed
qed


lemma loop_prefix_rule:
  "\<lbrakk>\<forall>s y. P s \<and> loop_cond qtd m s \<and> loop_body ddds dedup s = Some y
       \<longrightarrow> (\<exists>s'. y = Inr s' \<and> P s');
    P st; loop_prefix k ddds qtd dedup m st = Some y\<rbrakk>
   \<Longrightarrow> \<exists>st'. y = Inr st' \<and> P st'"
proof (induction k arbitrary: st)
  case 0
  then show ?case by auto
next
  case (Suc k)
  show ?case
  proof (cases "loop_cond qtd m st")
    case False
    with Suc.prems(3) have "y = Inr st" by simp
    with Suc.prems(2) show ?thesis by simp
  next
    case True
    with Suc.prems(3) obtain z where z: "loop_body ddds dedup st = Some z"
      by (cases "loop_body ddds dedup st") simp_all
    with Suc.prems(1,2) True obtain s' where s': "z = Inr s'" "P s'" by blast
    from Suc.prems(3) True z s' have "loop_prefix k ddds qtd dedup m s' = Some y" by simp
    from Suc.IH [OF Suc.prems(1) s'(2) this] show ?thesis .
  qed
qed


lemma loop_inv_all:
  "ddds \<noteq> [] \<Longrightarrow>
   \<forall>s y. loop_inv ddds qtd dedup m rs s \<and> loop_cond qtd m s \<and> loop_body ddds dedup s = Some y
       \<longrightarrow> (\<exists>s'. y = Inr s' \<and> loop_inv ddds qtd dedup m rs s')"
  using loop_inv_step by blast

lemma generate_loop_inv:
  assumes "ddds \<noteq> []" "generate_loop ddds qtd dedup m (init_state rs) = Some y"
  shows "\<exists>st. y = Inr st \<and> loop_inv ddds qtd dedup m rs st \<and> \<not> loop_cond qtd m st"
  by (rule generate_loop_rule [OF loop_inv_all [OF assms(1)] loop_inv_init assms(2)])

lemma loop_prefix_inv:
  assumes "ddds \<noteq> []" "loop_prefix k ddds qtd dedup m (init_state rs) = Some y"
  shows "\<exists>st. y = Inr st \<and> loop_inv ddds qtd dedup m rs st"
  by (rule loop_prefix_rule [OF loop_inv_all [OF assms(1)] loop_inv_init assms(2)])


lemma generate_Some:
  assumes "ddds \<noteq> []" "generate ddds qtd dedup rs = Some y"
  shows "\<exists>st. generate_loop ddds qtd dedup (max (qtd * 20) 200) (init_state rs) = Some (Inr st)
     \<and> loop_inv ddds qtd dedup (max (qtd * 20) 200) rs st
     \<and> \<not> loop_cond qtd (max (qtd * 20) 200) st
     \<and> y = Inr (results st,
                (if int (length (results st)) < qtd
                 then [Aviso (int (length (results st))) qtd (attempts st)] else []),
                entropy st)"
proof -
  from assms(2) obtain z where
    z: "generate_loop ddds qtd dedup (max (qtd * 20) 200) (init_state rs) = Some z"
    by (auto simp: generate_def split: option.splits)
  from generate_loop_inv [OF assms(1) z] obtain st where
    st: "z = Inr st" "loop_inv ddds qtd dedup (max (qtd * 20) 200) rs st"
      "\<not> loop_cond qtd (max (qtd * 20) 200) st"
    by blast
  with assms(2) z show ?thesis by (auto simp: generate_def)
qed

lemma generate_loop_empty:
  "generate_loop [] qtd dedup m st = Some (Inr st') \<Longrightarrow> st' = st"
  by (subst (asm) generate_loop.simps)
    (auto simp: loop_body_def pick_ddd_def split: if_splits)

lemma generate_empty_ddds:
  assumes "generate [] qtd dedup rs = Some (Inr (batch, out, rs'))"
  shows "batch = []"
proof -
  from assms obtain st where
    l: "generate_loop [] qtd dedup (max (qtd * 20) 200) (init_state rs) = Some (Inr st)"
    and b: "batch = results st"
    by (auto simp: generate_def split: option.splits sum.splits)
  from generate_loop_empty [OF l] b show ?thesis by (simp add: init_state_def)
qed

lemma gen_local_9digits_zeros_prefix:
  "gen_local_9digits (0 ## 0 ## 0 ## 0 ## 0 ## 0 ## 0 ## 0 ## s) = Some (Inr (''900000000'', s))"
proof -
  have d: "rand_digits 8 (0 ## 0 ## 0 ## 0 ## 0 ## 0 ## 0 ## 0 ## s) = (''00000000'', s)"
    by (simp add: draw_eval)
  have f: "is_trivially_invalid ''900000000'' = Inr False"
    by (simp add: is_trivially_invalid_def py_int_def)
  show ?thesis unfolding gen_local_9digits_def d using loop_stop [OF f] by simp
qed

lemma gen_local_9digits_sevens:
  "gen_local_9digits (sconst 7) = Some (Inr (''977777777'', sconst 7))"
proof -
  have d: "rand_digits 8 (sconst 7) = (''77777777'', sconst 7)"
    by (simp add: draw_eval)
  have f: "is_trivially_invalid ''977777777'' = Inr False"
    by (simp add: is_trivially_invalid_def py_int_def)
  show ?thesis unfolding gen_local_9digits_def d using loop_stop [OF f] by simp
qed


lemma loop_prefix_numeral:
  "loop_prefix (numeral n) ddds qtd dedup max_attempts st =
     (if loop_cond qtd max_attempts st then
        (case loop_body ddds dedup st of
           None \<Rightarrow> None
         | Some (Inl e) \<Rightarrow> Some (Inl e)
         | Some (Inr st') \<Rightarrow> loop_prefix (pred_numeral n) ddds qtd dedup max_attempts st')
      else Some (Inr st))"
  by (simp add: numeral_eq_Suc)

lemmas loop_eval = generate_def init_state_def generate_loop.simps loop_cond_def loop_body_def
  pick_ddd_def Let_def gen_number_for_ddd_def gen_local_9digits_zeros
  gen_local_9digits_zeros_prefix gen_local_9digits_sevens format_e164_def format_nacional_def

lemma run_retry:
  "generate [''11''] 2 True ([0, 0, 0, 0, 0, 0, 0, 0, 0, 0, 0, 0, 0, 0, 0, 0] @- sconst 7)
   = Some (Inr ([(''+5511900000000'', ''(11) 9 0000-0000'', ''11'', ''900000000''),
                 (''+5511977777777'', ''(11) 9 7777-7777'', ''11'', ''977777777'')],
                [], sconst 7))"
  by (simp add: loop_eval)

lemma run_two_codes:
  "generate [''11'', ''21''] 2 True (sconst 0)
   = Some (Inr ([(''+5511900000000'', ''(11) 9 0000-0000'', ''11'', ''900000000''),
                 (''+5521900000000'', ''(21) 9 0000-0000'', ''21'', ''900000000'')],
                [], sconst 0))"
  by (simp add: loop_eval)


lemma loop_body_attempts:
  "loop_body ddds dedup st = Some (Inr st') \<Longrightarrow> attempts st' = attempts st + 1"
  by (drule loop_body_step) (auto split: if_splits)

lemma loop_prefix_attempts:
  "loop_prefix k ddds qtd dedup m st = Some (Inr s) \<Longrightarrow>
   attempts s \<le> attempts st + int k \<and> (loop_cond qtd m s \<longrightarrow> attempts s = attempts st + int k)"
proof (induction k arbitrary: st)
  case 0
  then show ?case by simp
next
  case (Suc k)
  show ?case
  proof (cases "loop_cond qtd m st")
    case False
    with Suc.prems have "s = st" by simp
    with False show ?thesis by simp
  next
    case True
    with Suc.prems obtain s1 where b: "loop_body ddds dedup st = Some (Inr s1)"
      and p: "loop_prefix k ddds qtd dedup m s1 = Some (Inr s)"
      by (auto split: option.splits sum.splits)
    from loop_body_attempts [OF b] Suc.IH [OF p] show ?thesis by simp
  qed
qed





lemma run_shortfall:
  "generate_loop [''11''] 2 True 200 (init_state (sconst 0))
   = Some (Inr \<lparr>results = [(''+5511900000000'', ''(11) 9 0000-0000'', ''11'', ''900000000'')],
               seen = {''+5511900000000''}, i = 1, attempts = 200, entropy = sconst 0\<rparr>)"
  by (simp add: loop_eval)

lemma generate_never_raises:
  "ddds \<noteq> [] \<Longrightarrow> generate ddds qtd dedup rs \<noteq> Some (Inl e)"
proof
  assume ne: "ddds \<noteq> []" and "generate ddds qtd dedup rs = Some (Inl e)"
  from generate_Some [OF this] show False by blast
qed

lemma attempt_state_4:
  "attempt_state 4 [''11'', ''21''] 3 True (sconst 0)
   = Some \<lparr>results = [(''+5511900000000'', ''(11) 9 0000-0000'', ''11'', ''900000000''),
                      (''+5521900000000'', ''(21) 9 0000-0000'', ''21'', ''900000000'')],
           seen = {''+5511900000000'', ''+5521900000000''}, i = 2, attempts = 3,
           entropy = sconst 0\<rparr>"
  by (simp add: attempt_state_def loop_prefix_numeral loop_eval insert_commute)

subsection \<open>The trivial-pattern filter meets its specification\<close>

text \<open>
  Claim C4. On every non-empty string of decimal digits \<^verbatim>\<open>is_trivially_invalid\<close>
  returns (without raising) exactly the truth value of the specification's three rules:
  all characters identical, or length at least 6 with every adjacent pair of the whole
  string rising by exactly 1, or length at least 6 with every adjacent pair of the whole
  string falling by exactly 1. It returns true on \<open>''999999999''\<close> and
  \<open>''987654321''\<close>, and false on \<open>''912345678''\<close>, whose run \<open>12345678\<close> is only a
  proper substring.
\<close>

theorem is_trivially_invalid_characterisation:
  "(\<forall>s. s \<noteq> [] \<and> (\<forall>c \<in> set s. isdigit c)
        \<longrightarrow> is_trivially_invalid s = Inr (isTrivial_spec s))
   \<and> is_trivially_invalid ''999999999'' = Inr True
   \<and> is_trivially_invalid ''987654321'' = Inr True
   \<and> is_trivially_invalid ''912345678'' = Inr False"
proof -
  have "is_trivially_invalid ''999999999'' = Inr True"
    by (simp add: is_trivially_invalid_def)
  moreover have "is_trivially_invalid ''987654321'' = Inr True"
    by (simp add: is_trivially_invalid_def py_int_def)
  moreover have "is_trivially_invalid ''912345678'' = Inr False"
    by (simp add: is_trivially_invalid_def py_int_def)
  ultimately show ?thesis using filter_refines by blast
qed

theorem is_trivially_invalid_characterisation_witness:
  "is_trivially_invalid ''123456'' = Inr True \<and> is_trivially_invalid ''91234'' = Inr False"
proof -
  have d1: "''123456'' \<noteq> [] \<and> (\<forall>c \<in> set ''123456''. isdigit c)"
    by (simp add: isdigit_def)
  have d2: "''91234'' \<noteq> [] \<and> (\<forall>c \<in> set ''91234''. isdigit c)"
    by (simp add: isdigit_def)
  have s1: "isTrivial_spec ''123456''" by code_simp
  have s2: "\<not> isTrivial_spec ''91234''" by code_simp
  from is_trivially_invalid_characterisation d1 d2 s1 s2 show ?thesis by simp
qed

subsection \<open>The local-number generator\<close>

text \<open>
  Claim C5. Every value \<^verbatim>\<open>gen_local_9digits\<close> returns is a normal return (no
  exception) of a string of length exactly 9 whose first character is \<open>9\<close>, whose
  characters are all decimal digits, and which \<^verbatim>\<open>is_trivially_invalid\<close> classifies as
  not trivial.
\<close>

theorem gen_local_9digits_returns_valid:
  "gen_local_9digits rs = Some y \<Longrightarrow>
   \<exists>seq rs'. y = Inr (seq, rs') \<and> length seq = 9 \<and> seq ! 0 = CHR ''9''
     \<and> list_all isdigit seq \<and> is_trivially_invalid seq = Inr False"
proof -
  assume "gen_local_9digits rs = Some y"
  from gen_local_9digits_good [OF this] obtain seq n where
    "y = Inr (seq, sdrop n rs)" "is_local9 seq" "is_trivially_invalid seq = Inr False"
    by (elim exE conjE)
  then show ?thesis
    by (intro exI [of _ seq] exI [of _ "sdrop n rs"]) (simp add: is_local9_def)
qed

text \<open>
  A run that redraws twice: the first draw gives \<open>999999999\<close>, the second
  \<open>987654321\<close>, the third \<open>977777777\<close>, which is returned.
\<close>

theorem gen_local_9digits_returns_valid_witness:
  "gen_local_9digits ([9, 9, 9, 9, 9, 9, 9, 9, 8, 7, 6, 5, 4, 3, 2, 1] @- sconst 7)
     = Some (Inr (''977777777'', sconst 7))
   \<and> length ''977777777'' = 9 \<and> ''977777777'' ! 0 = CHR ''9''
   \<and> list_all isdigit ''977777777'' \<and> is_trivially_invalid ''977777777'' = Inr False"
proof -
  have d1: "rand_digits 8 ([9, 9, 9, 9, 9, 9, 9, 9, 8, 7, 6, 5, 4, 3, 2, 1] @- sconst 7)
      = (''99999999'', [8, 7, 6, 5, 4, 3, 2, 1] @- sconst 7)"
    by (simp add: draw_eval)
  have d2: "rand_digits 8 ([8, 7, 6, 5, 4, 3, 2, 1] @- sconst 7) = (''87654321'', sconst 7)"
    by (simp add: draw_eval)
  have d3: "rand_digits 8 (sconst 7) = (''77777777'', sconst 7)"
    by (simp add: draw_eval)
  have f1: "is_trivially_invalid ''999999999'' = Inr True"
    by (simp add: is_trivially_invalid_def)
  have f2: "is_trivially_invalid ''987654321'' = Inr True"
    by (simp add: is_trivially_invalid_def py_int_def)
  have f3: "is_trivially_invalid ''977777777'' = Inr False"
    by (simp add: is_trivially_invalid_def py_int_def)
  have l3: "gen_local_9digits_loop ''977777777'' (sconst 7)
      = Some (Inr (''977777777'', sconst 7))"
    by (rule loop_stop [OF f3])
  have l2: "gen_local_9digits_loop ''987654321'' (sconst 7)
      = Some (Inr (''977777777'', sconst 7))"
    using loop_redraw [OF f2 d3] l3 by simp
  have l1: "gen_local_9digits_loop ''999999999'' ([8, 7, 6, 5, 4, 3, 2, 1] @- sconst 7)
      = Some (Inr (''977777777'', sconst 7))"
    using loop_redraw [OF f1 d2] l2 by simp
  have run: "gen_local_9digits ([9, 9, 9, 9, 9, 9, 9, 9, 8, 7, 6, 5, 4, 3, 2, 1] @- sconst 7)
      = Some (Inr (''977777777'', sconst 7))"
    unfolding gen_local_9digits_def d1 using l1 by simp
  from gen_local_9digits_returns_valid [OF run] run show ?thesis by simp
qed

subsection \<open>The formatter\<close>

text \<open>
  Claim C2, as amended. For every 2-character area code and 9-character local number,
  the E.164 string of line 83 is the concatenation of \<open>+55\<close>, the area code and the
  local number; it has exactly 14 characters in all, the first of them the \<open>+\<close>, so
  exactly 13 characters follow the \<open>+\<close>.
\<close>

theorem format_e164_length:
  "length ddd = 2 \<Longrightarrow> length numero = 9 \<Longrightarrow>
   format_e164 ddd numero = ''+55'' @ ddd @ numero
   \<and> length (format_e164 ddd numero) = 14
   \<and> format_e164 ddd numero ! 0 = CHR ''+''
   \<and> length (drop 1 (format_e164 ddd numero)) = 13"
  by (simp add: format_e164_def)

theorem format_e164_length_witness:
  "length ''11'' = 2 \<and> length ''912345678'' = 9
   \<and> format_e164 ''11'' ''912345678'' = ''+5511912345678''
   \<and> length (format_e164 ''11'' ''912345678'') = 14
   \<and> length (drop 1 (format_e164 ''11'' ''912345678'')) = 13"
  using format_e164_length [of "''11''" "''912345678''"] by simp

text \<open>
  Claim C2 as stated asks for 14 characters after the \<open>+\<close>. For area code \<open>11\<close> and
  local number \<open>912345678\<close> the E.164 string is \<open>+5511912345678\<close>, and what follows
  the \<open>+\<close> is the 13 characters \<open>5511912345678\<close>.
\<close>

theorem format_e164_14_after_plus_counterexample:
  "length ''11'' = 2 \<and> length ''912345678'' = 9
   \<and> format_e164 ''11'' ''912345678'' = ''+5511912345678''
   \<and> drop 1 (format_e164 ''11'' ''912345678'') = ''5511912345678''
   \<and> length (drop 1 (format_e164 ''11'' ''912345678'')) \<noteq> 14"
  by (simp add: format_e164_def)

text \<open>
  Claim C8. For every 2-character area code \<open>D\<close> and every 9-character local number
  \<open>N\<close> whose first character is \<open>9\<close>: stripping \<open>+55\<close> and \<open>D\<close> from the E.164
  string and splitting the nine characters left as digit 0, digits 1 to 4 and digits 5
  to 8 gives back exactly the national string that line 84 formats (which is a normal
  return, not an exception).
\<close>

theorem national_round_trip:
  "length D = 2 \<Longrightarrow> length N = 9 \<Longrightarrow> N ! 0 = CHR ''9'' \<Longrightarrow>
   map_option Inr (national_from_e164 D (format_e164 D N)) = Some (format_nacional D N)"
proof -
  assume d: "length D = 2" and n: "length N = 9" and "N ! 0 = CHR ''9''"
  from n have ne: "N \<noteq> []" by auto
  have s: "strip_prefix (''+55'' @ D) (format_e164 D N) = Some N"
    by (simp add: strip_prefix_def format_e164_def)
  from n have t: "take 4 (drop 5 N) = drop 5 N" by simp
  from ne t show ?thesis
    unfolding national_from_e164_def s by (simp add: format_nacional_def)
qed

theorem national_round_trip_witness:
  "length ''11'' = 2 \<and> length ''912345678'' = 9 \<and> ''912345678'' ! 0 = CHR ''9''
   \<and> national_from_e164 ''11'' ''+5511912345678'' = Some ''(11) 9 1234-5678''
   \<and> format_nacional ''11'' ''912345678'' = Inr ''(11) 9 1234-5678''"
proof -
  have f: "format_e164 ''11'' ''912345678'' = ''+5511912345678''"
    by (simp add: format_e164_def)
  have g: "format_nacional ''11'' ''912345678'' = Inr ''(11) 9 1234-5678''"
    by (simp add: format_nacional_def)
  from national_round_trip [of "''11''" "''912345678''"] f g show ?thesis by simp
qed

subsection \<open>The batch loop: area-code rotation\<close>

text \<open>
  Claim C1, as amended. In \<^verbatim>\<open>generate\<close> with \<^verbatim>\<open>dedup\<close> true the area-code index
  advances by one on every accepted attempt and stays where it is on an attempt rejected
  as a duplicate: for every non-empty list of area codes, the area code used on the
  \<open>k\<close>-th attempt (counted from 1) is \<open>ddds[a mod len(ddds)]\<close>, where \<open>a\<close> is the
  number of records accepted in the first \<open>k - 1\<close> attempts (so \<open>a \<le> k - 1\<close>).
\<close>

theorem attempt_ddd_follows_accepted:
  "ddds \<noteq> [] \<Longrightarrow> attempt_ddd k ddds qtd True rs = Some d \<Longrightarrow>
   \<exists>a. accepted_before k ddds qtd True rs = Some a \<and> a \<le> k - 1
     \<and> d = ddds ! (a mod length ddds)"
proof -
  let ?m = "max (qtd * 20) 200"
  assume ne: "ddds \<noteq> []" and d: "attempt_ddd k ddds qtd True rs = Some d"
  from d obtain s where s: "attempt_state k ddds qtd True rs = Some s"
    and pk: "pick_ddd ddds (i s) = Inr d"
    by (auto simp: attempt_ddd_def split: option.splits sum.splits)
  from s have p: "loop_prefix (k - 1) ddds qtd True ?m (init_state rs) = Some (Inr s)"
    and c: "loop_cond qtd ?m s"
    by (auto simp: attempt_state_def split: if_splits option.splits sum.splits)
  from loop_prefix_inv [OF ne p] have inv: "loop_inv ddds qtd True ?m rs s" by simp
  then have i: "i s = int (length (results s))"
    and le: "int (length (results s)) \<le> attempts s"
    by (simp_all add: loop_inv_def)
  from loop_prefix_attempts [OF p] have "attempts s \<le> int (k - 1)" by (simp add: init_state_def)
  with le have a: "length (results s) \<le> k - 1" by linarith
  from pk ne i have "d = ddds ! nat (int (length (results s)) mod int (length ddds))"
    by (simp add: pick_ddd_def)
  then have "d = ddds ! (length (results s) mod length ddds)"
    by (simp add: zmod_int [symmetric])
  with s a show ?thesis by (simp add: accepted_before_def)
qed

theorem attempt_ddd_follows_accepted_witness:
  "attempt_ddd 4 [''11'', ''21''] 3 True (sconst 0) = Some ''11''
   \<and> accepted_before 4 [''11'', ''21''] 3 True (sconst 0) = Some 2
   \<and> [''11'', ''21''] ! (2 mod length [''11'', ''21'']) = ''11''"
proof -
  have d: "attempt_ddd 4 [''11'', ''21''] 3 True (sconst 0) = Some ''11''"
    by (simp add: attempt_ddd_def attempt_state_4 pick_ddd_def)
  have a: "accepted_before 4 [''11'', ''21''] 3 True (sconst 0) = Some 2"
    by (simp add: accepted_before_def attempt_state_4)
  from attempt_ddd_follows_accepted [OF _ d] d a show ?thesis by simp
qed

text \<open>
  Claim C1 as stated has the index advance on every attempt, so that attempt \<open>k\<close> would
  use \<open>ddds[(k - 1) mod len(ddds)]\<close>. With area codes \<open>11\<close> and \<open>21\<close>, three numbers
  requested and an entropy source that always yields the local number \<open>900000000\<close>:
  attempts 1 and 2 are accepted for \<open>11\<close> and \<open>21\<close>, attempt 3 draws \<open>11\<close> again and
  is rejected as a duplicate by the \<^verbatim>\<open>continue\<close> on line 101, which skips
  \<^verbatim>\<open>i += 1\<close>; attempt 4 therefore uses \<open>11\<close> once more, where the claim's formula
  gives \<open>21\<close>.
\<close>

theorem attempt_ddd_round_robin_counterexample:
  "attempt_ddd 4 [''11'', ''21''] 3 True (sconst 0) = Some ''11''
   \<and> [''11'', ''21''] ! ((4 - 1) mod length [''11'', ''21'']) = ''21''"
proof -
  have "attempt_ddd 4 [''11'', ''21''] 3 True (sconst 0) = Some ''11''"
    by (simp add: attempt_ddd_def attempt_state_4 pick_ddd_def)
  moreover have "[''11'', ''21''] ! ((4 - 1) mod length [''11'', ''21'']) = ''21''"
    by code_simp
  ultimately show ?thesis ..
qed

subsection \<open>The batch loop: the returned batch\<close>

text \<open>
  Claim C3. For every non-empty list of area codes and every positive quantity, the
  E.164 values (first components) of the records in the batch that \<^verbatim>\<open>generate\<close>
  returns with \<^verbatim>\<open>dedup\<close> true are pairwise distinct.
\<close>

theorem generate_dedup_distinct:
  "ddds \<noteq> [] \<Longrightarrow> 0 < qtd \<Longrightarrow> generate ddds qtd True rs = Some (Inr (batch, out, rs')) \<Longrightarrow>
   distinct (map fst batch)"
proof -
  assume ne: "ddds \<noteq> []" and g: "generate ddds qtd True rs = Some (Inr (batch, out, rs'))"
  from generate_Some [OF ne g] obtain st where
    "loop_inv ddds qtd True (max (qtd * 20) 200) rs st" "batch = results st"
    by auto
  then show ?thesis by (simp add: loop_inv_def)
qed

text \<open>
  A run with a rejected duplicate: the second attempt draws \<open>900000000\<close> again and is
  discarded, the third draws \<open>977777777\<close>.
\<close>

theorem generate_dedup_distinct_witness:
  "generate [''11''] 2 True ([0, 0, 0, 0, 0, 0, 0, 0, 0, 0, 0, 0, 0, 0, 0, 0] @- sconst 7)
   = Some (Inr ([(''+5511900000000'', ''(11) 9 0000-0000'', ''11'', ''900000000''),
                 (''+5511977777777'', ''(11) 9 7777-7777'', ''11'', ''977777777'')],
                [], sconst 7))
   \<and> distinct [''+5511900000000'', ''+5511977777777'']"
  using generate_dedup_distinct [OF _ _ run_retry] run_retry by simp

text \<open>
  Claim C10. Every record \<^verbatim>\<open>(e164, nacional, ddd, numero)\<close> of a batch returned by
  \<^verbatim>\<open>generate\<close> satisfies \<open>e164 = "+55" + ddd + numero\<close> and
  \<open>nacional = "(" + ddd + ") " + numero[0] + " " + numero[1:5] + "-" + numero[5:9]\<close>,
  and its \<open>ddd\<close> is an element of the list of area codes passed in.
\<close>

theorem generate_records_consistent:
  "generate ddds qtd dedup rs = Some (Inr (batch, out, rs')) \<Longrightarrow>
   list_all (record_consistent ddds) batch"
proof (cases "ddds = []")
  case True
  assume "generate ddds qtd dedup rs = Some (Inr (batch, out, rs'))"
  with True have "batch = []" by (simp add: generate_empty_ddds)
  then show ?thesis by simp
next
  case False
  assume g: "generate ddds qtd dedup rs = Some (Inr (batch, out, rs'))"
  from generate_Some [OF False g] obtain st where
    "loop_inv ddds qtd dedup (max (qtd * 20) 200) rs st" "batch = results st"
    by auto
  then show ?thesis by (simp add: loop_inv_def)
qed

theorem generate_records_consistent_witness:
  "generate [''11'', ''21''] 2 True (sconst 0)
   = Some (Inr ([(''+5511900000000'', ''(11) 9 0000-0000'', ''11'', ''900000000''),
                 (''+5521900000000'', ''(21) 9 0000-0000'', ''21'', ''900000000'')],
                [], sconst 0))
   \<and> record_consistent [''11'', ''21'']
        (''+5511900000000'', ''(11) 9 0000-0000'', ''11'', ''900000000'')
   \<and> record_consistent [''11'', ''21'']
        (''+5521900000000'', ''(21) 9 0000-0000'', ''21'', ''900000000'')"
  using generate_records_consistent [OF run_two_codes] run_two_codes by simp



subsection \<open>The batch loop: attempt budget and shortfall\<close>



text \<open>
  Claim C7. When the loop of \<^verbatim>\<open>generate\<close> stops with fewer records than requested,
  the call prints the one warning built from the number of records produced, the number
  requested and the attempts used (which, for a non-empty list of area codes, is the whole
  budget), and returns the partial batch normally. For a non-empty list of area codes
  \<^verbatim>\<open>generate\<close> never raises an exception.
\<close>

theorem generate_shortfall_warning:
  "(\<forall>st. generate_loop ddds qtd dedup (max (qtd * 20) 200) (init_state rs) = Some (Inr st)
         \<and> int (length (results st)) < qtd
      \<longrightarrow> generate ddds qtd dedup rs
            = Some (Inr (results st, [Aviso (int (length (results st))) qtd (attempts st)],
                         entropy st))
          \<and> (ddds \<noteq> [] \<longrightarrow> attempts st = max (qtd * 20) 200))
   \<and> (ddds \<noteq> [] \<longrightarrow> (\<forall>e. generate ddds qtd dedup rs \<noteq> Some (Inl e)))"
proof (intro conjI allI impI)
  fix st
  assume "generate_loop ddds qtd dedup (max (qtd * 20) 200) (init_state rs) = Some (Inr st)
         \<and> int (length (results st)) < qtd"
  then show "generate ddds qtd dedup rs
            = Some (Inr (results st, [Aviso (int (length (results st))) qtd (attempts st)],
                         entropy st))"
    by (simp add: generate_def)
next
  fix st
  assume a: "generate_loop ddds qtd dedup (max (qtd * 20) 200) (init_state rs) = Some (Inr st)
         \<and> int (length (results st)) < qtd" and ne: "ddds \<noteq> []"
  from a generate_loop_inv [OF ne, of qtd dedup "max (qtd * 20) 200" rs "Inr st"]
  have inv: "loop_inv ddds qtd dedup (max (qtd * 20) 200) rs st"
    and nc: "\<not> loop_cond qtd (max (qtd * 20) 200) st" by simp_all
  from inv have "attempts st \<le> max (qtd * 20) 200" by (simp add: loop_inv_def)
  with nc a show "attempts st = max (qtd * 20) 200" by (simp add: loop_cond_def)
next
  fix e assume "ddds \<noteq> []"
  then show "generate ddds qtd dedup rs \<noteq> Some (Inl e)" by (rule generate_never_raises)
qed

theorem generate_shortfall_warning_witness:
  "generate_loop [''11''] 2 True 200 (init_state (sconst 0))
     = Some (Inr \<lparr>results = [(''+5511900000000'', ''(11) 9 0000-0000'', ''11'', ''900000000'')],
               seen = {''+5511900000000''}, i = 1, attempts = 200, entropy = sconst 0\<rparr>)
   \<and> generate [''11''] 2 True (sconst 0)
     = Some (Inr ([(''+5511900000000'', ''(11) 9 0000-0000'', ''11'', ''900000000'')],
                  [Aviso 1 2 200], sconst 0))"
  using generate_shortfall_warning [of "[''11'']" 2 True "sconst 0"] run_shortfall by simp

end
